theory Spec2Isabelle
  imports Complex_Main
begin

section \<open>Data model\<close>

text \<open>
  An iterator into the contiguous node storage is modelled as a position (a natural
  number); \<open>begin\<close> is position 0 and \<open>end\<close> is the length of the storage. The C++ code
  reads through iterators without checking them; a read at or beyond \<open>end\<close> and a
  positional erase with an invalid iterator are undefined behaviour, which the model
  makes explicit as a value of type \<open>fault\<close>. The third fault is a call that names a
  function template none of whose template arguments are given and one of whose
  template parameters cannot be deduced: the call has no matching function, and a
  program that makes it is not translated.
\<close>

datatype fault = Deref_past_end | Invalid_iterator | No_matching_function

text \<open>\<^verbatim>\<open>*it\<close> for an iterator \<open>it\<close> into the vector \<open>xs\<close>.\<close>

definition deref :: "'a list \<Rightarrow> nat \<Rightarrow> fault + 'a" where
  "deref xs it = (if it < length xs then Inr (xs ! it) else Inl Deref_past_end)"

text \<open>Class \<^verbatim>\<open>vector_map\<close> (vector_map.h): the comparison object and the node vector.\<close>

record ('k, 'v) vector_map =
  comp_vm :: "'k \<Rightarrow> 'k \<Rightarrow> bool"
  mem_vm :: "('k \<times> 'v) list"

section \<open>Binary searches of vector_map\<close>

text \<open>
  The three private static searches are function templates, called by the members
  without template arguments. Such a call is well-formed only if every template
  parameter of the template occurs in the type of one of its function parameters, from
  whose argument it is deduced. \<open>deduced_call\<close> takes the template parameters that the
  template declares, the template parameters that occur in the types of its function
  parameters, and the result of the body.
\<close>

datatype template_parameter = Iter | T

definition deduced_call ::
  "template_parameter list \<Rightarrow> template_parameter list \<Rightarrow> fault + 'r \<Rightarrow> fault + 'r" where
  "deduced_call declared in_parameter_types body =
     (if set declared \<subseteq> set in_parameter_types then body else Inl No_matching_function)"

text \<open>
  The body of the private static \<^verbatim>\<open>lower_bound(first, last, key)\<close> of vector_map.h,
  lines 391-405. The loop state is \<open>first\<close> and \<open>count\<close>; \<open>count\<close> starts as
  \<open>distance(first,last)\<close>.
\<close>

function lower_bound_loop :: "('k::ord \<times> 'v) list \<Rightarrow> nat \<Rightarrow> nat \<Rightarrow> 'k \<Rightarrow> fault + nat" where
  "lower_bound_loop xs first count key =
     (if count > 0 then
        (let step = count div 2; it = first + step in
         case deref xs it of
           Inl e \<Rightarrow> Inl e
         | Inr nd \<Rightarrow>
             if fst nd < key
             then lower_bound_loop xs (it + 1) (count - (step + 1)) key
             else lower_bound_loop xs first step key)
      else Inr first)"
  by pat_completeness auto
termination
  by (relation "measure (\<lambda>(xs, first, count, key). count)") auto

text \<open>
  The body of the private static \<^verbatim>\<open>upper_bound(first, last, key)\<close> of vector_map.h,
  lines 412-426.
\<close>

function upper_bound_loop :: "('k::ord \<times> 'v) list \<Rightarrow> nat \<Rightarrow> nat \<Rightarrow> 'k \<Rightarrow> fault + nat" where
  "upper_bound_loop xs first count key =
     (if count > 0 then
        (let step = count div 2; it = first + step in
         case deref xs it of
           Inl e \<Rightarrow> Inl e
         | Inr nd \<Rightarrow>
             if \<not> (key < fst nd)
             then upper_bound_loop xs (it + 1) (count - (step + 1)) key
             else upper_bound_loop xs first step key)
      else Inr first)"
  by pat_completeness auto
termination
  by (relation "measure (\<lambda>(xs, first, count, key). count)") auto

text \<open>
  \<open>distance(first,last)\<close> is \<open>last - first\<close>; when \<open>last\<close> is before \<open>first\<close> the signed
  count of the source is not positive and the loop body never runs, which is what the
  truncating subtraction on \<open>nat\<close> gives as well.
\<close>

text \<open>
  \<^verbatim>\<open>lower_bound\<close> (line 387) is declared \<^verbatim>\<open>template <class Iter>\<close> with the function
  parameters \<^verbatim>\<open>(Iter first, Iter last, const key_type& key)\<close>: its only template
  parameter is deduced from the iterators, and the call is the body.
\<close>

definition lower_bound_static :: "('k::ord \<times> 'v) list \<Rightarrow> nat \<Rightarrow> nat \<Rightarrow> 'k \<Rightarrow> fault + nat" where
  "lower_bound_static xs first last' key = lower_bound_loop xs first (last' - first) key"

text \<open>
  \<^verbatim>\<open>upper_bound\<close> (lines 408-410) and \<^verbatim>\<open>equal_range\<close> (lines 429-431) are declared
  \<^verbatim>\<open>template <class Iter, class T>\<close> with the same function parameters
  \<^verbatim>\<open>(Iter first, Iter last, const key_type& key)\<close>: \<^verbatim>\<open>T\<close> occurs in none of them. The
  body of \<^verbatim>\<open>equal_range\<close> (lines 433-434) calls \<^verbatim>\<open>lower_bound\<close> and then
  \<^verbatim>\<open>upper_bound\<close> from the lower bound, again without template arguments.
\<close>

definition upper_bound_static :: "('k::ord \<times> 'v) list \<Rightarrow> nat \<Rightarrow> nat \<Rightarrow> 'k \<Rightarrow> fault + nat" where
  "upper_bound_static xs first last' key =
     deduced_call [Iter, T] [Iter] (upper_bound_loop xs first (last' - first) key)"

definition equal_range_static ::
  "('k::ord \<times> 'v) list \<Rightarrow> nat \<Rightarrow> nat \<Rightarrow> 'k \<Rightarrow> fault + (nat \<times> nat)" where
  "equal_range_static xs first last' key =
     deduced_call [Iter, T] [Iter]
       (case lower_bound_static xs first last' key of
          Inl e \<Rightarrow> Inl e
        | Inr it \<Rightarrow>
            (case upper_bound_static xs it last' key of
               Inl e \<Rightarrow> Inl e
             | Inr u \<Rightarrow> Inr (it, u)))"

text \<open>
  The public members (lines 318-341) call the static templates on the whole vector,
  without template arguments.
\<close>

definition lower_bound :: "('k::ord, 'v) vector_map \<Rightarrow> 'k \<Rightarrow> fault + nat" where
  "lower_bound m k = lower_bound_static (mem_vm m) 0 (length (mem_vm m)) k"

definition upper_bound :: "('k::ord, 'v) vector_map \<Rightarrow> 'k \<Rightarrow> fault + nat" where
  "upper_bound m k = upper_bound_static (mem_vm m) 0 (length (mem_vm m)) k"

definition equal_range :: "('k::ord, 'v) vector_map \<Rightarrow> 'k \<Rightarrow> fault + (nat \<times> nat)" where
  "equal_range m k = equal_range_static (mem_vm m) 0 (length (mem_vm m)) k"

definition count_vm :: "('k::ord, 'v) vector_map \<Rightarrow> 'k \<Rightarrow> fault + nat" where
  "count_vm m k =
     (case equal_range m k of Inl e \<Rightarrow> Inl e | Inr r \<Rightarrow> Inr (snd r - fst r))"

text \<open>
  \<^verbatim>\<open>find\<close> (lines 310-314): the node at the lower bound is read before anything tells
  whether the lower bound is \<open>end\<close>.
\<close>

definition find_vm :: "('k::ord, 'v) vector_map \<Rightarrow> 'k \<Rightarrow> fault + nat" where
  "find_vm m k =
     (case lower_bound m k of
        Inl e \<Rightarrow> Inl e
      | Inr it \<Rightarrow>
          (case deref (mem_vm m) it of
             Inl e \<Rightarrow> Inl e
           | Inr nd \<Rightarrow> Inr (if fst nd = k then it else length (mem_vm m))))"

section \<open>Modifiers of vector_map\<close>

text \<open>
  \<^verbatim>\<open>std::vector::insert(pos, val)\<close> and the two forms of \<^verbatim>\<open>std::vector::erase\<close>, with
  their preconditions on the iterators: \<open>pos\<close> in \<open>[begin, end]\<close> for insertion, \<open>pos\<close>
  dereferenceable for the erasure of one element, \<open>[first, last)\<close> a range of the
  vector for the erasure of a range.
\<close>

definition vector_insert :: "'a list \<Rightarrow> nat \<Rightarrow> 'a \<Rightarrow> fault + 'a list" where
  "vector_insert xs pos val =
     (if pos \<le> length xs then Inr (take pos xs @ [val] @ drop pos xs)
      else Inl Invalid_iterator)"

definition vector_erase :: "'a list \<Rightarrow> nat \<Rightarrow> fault + 'a list" where
  "vector_erase xs pos =
     (if pos < length xs then Inr (take pos xs @ drop (pos + 1) xs)
      else Inl Invalid_iterator)"

definition vector_erase_range :: "'a list \<Rightarrow> nat \<Rightarrow> nat \<Rightarrow> fault + 'a list" where
  "vector_erase_range xs first last' =
     (if first \<le> last' \<and> last' \<le> length xs then Inr (take first xs @ drop last' xs)
      else Inl Invalid_iterator)"

text \<open>
  \<^verbatim>\<open>insert(const value_type&)\<close> (lines 241-252): the result is the iterator to the new
  node and the updated map.
\<close>

definition insert_vm ::
  "('k::ord, 'v) vector_map \<Rightarrow> 'k \<times> 'v \<Rightarrow> fault + (nat \<times> ('k, 'v) vector_map)" where
  "insert_vm m val =
     (case lower_bound m (fst val) of
        Inl e \<Rightarrow> Inl e
      | Inr pos \<Rightarrow>
          (case vector_insert (mem_vm m) pos val of
             Inl e \<Rightarrow> Inl e
           | Inr xs \<Rightarrow> Inr (pos, m\<lparr>mem_vm := xs\<rparr>)))"

text \<open>
  \<^verbatim>\<open>insert(first, last)\<close> (lines 255-268): the loop over the input range; \<open>it\<close> starts as
  \<open>cend()\<close>. Reserving capacity changes no observable state.
\<close>

fun insert_loop ::
  "('k::ord, 'v) vector_map \<Rightarrow> nat \<Rightarrow> ('k \<times> 'v) list \<Rightarrow> fault + (nat \<times> ('k, 'v) vector_map)" where
  "insert_loop m it [] = Inr (it, m)"
| "insert_loop m it (val # vals) =
     (case insert_vm m val of
        Inl e \<Rightarrow> Inl e
      | Inr (it', m') \<Rightarrow> insert_loop m' it' vals)"

definition insert_range ::
  "('k::ord, 'v) vector_map \<Rightarrow> ('k \<times> 'v) list \<Rightarrow> fault + (nat \<times> ('k, 'v) vector_map)" where
  "insert_range m vals = insert_loop m (length (mem_vm m)) vals"

definition insert_il ::
  "('k::ord, 'v) vector_map \<Rightarrow> ('k \<times> 'v) list \<Rightarrow> fault + (nat \<times> ('k, 'v) vector_map)" where
  "insert_il m il = insert_range m il"

text \<open>
  \<^verbatim>\<open>erase(const key_type&)\<close> (lines 277-289): the count removed and the updated map.
  It starts with the member \<^verbatim>\<open>equal_range\<close>.
\<close>

definition erase_key ::
  "('k::ord, 'v) vector_map \<Rightarrow> 'k \<Rightarrow> fault + (nat \<times> ('k, 'v) vector_map)" where
  "erase_key m key =
     (case equal_range m key of
        Inl e \<Rightarrow> Inl e
      | Inr er \<Rightarrow>
          if fst er < length (mem_vm m) then
            (case vector_erase_range (mem_vm m) (fst er) (snd er) of
               Inl e \<Rightarrow> Inl e
             | Inr xs \<Rightarrow> Inr (snd er - fst er, m\<lparr>mem_vm := xs\<rparr>))
          else Inr (0, m))"

text \<open>\<^verbatim>\<open>erase(pos)\<close> and \<^verbatim>\<open>erase(first,last)\<close> (lines 291-299).\<close>

definition erase_pos ::
  "('k, 'v) vector_map \<Rightarrow> nat \<Rightarrow> fault + (nat \<times> ('k, 'v) vector_map)" where
  "erase_pos m pos =
     (case vector_erase (mem_vm m) pos of
        Inl e \<Rightarrow> Inl e
      | Inr xs \<Rightarrow> Inr (pos, m\<lparr>mem_vm := xs\<rparr>))"

definition erase_range ::
  "('k, 'v) vector_map \<Rightarrow> nat \<Rightarrow> nat \<Rightarrow> fault + (nat \<times> ('k, 'v) vector_map)" where
  "erase_range m first last' =
     (case vector_erase_range (mem_vm m) first last' of
        Inl e \<Rightarrow> Inl e
      | Inr xs \<Rightarrow> Inr (first, m\<lparr>mem_vm := xs\<rparr>))"

definition clear :: "('k, 'v) vector_map \<Rightarrow> ('k, 'v) vector_map" where
  "clear m = m\<lparr>mem_vm := []\<rparr>"

text \<open>\<^verbatim>\<open>assign\<close> (lines 170-178): clear, then insert the range.\<close>

definition assign :: "('k::ord, 'v) vector_map \<Rightarrow> ('k \<times> 'v) list \<Rightarrow> fault + ('k, 'v) vector_map" where
  "assign m vals =
     (case insert_range (clear m) vals of Inl e \<Rightarrow> Inl e | Inr r \<Rightarrow> Inr (snd r))"

definition assign_il :: "('k::ord, 'v) vector_map \<Rightarrow> ('k \<times> 'v) list \<Rightarrow> fault + ('k, 'v) vector_map" where
  "assign_il m il = assign m il"

text \<open>The constructors (lines 97-133): an empty map, or an empty map filled by \<^verbatim>\<open>insert\<close>.\<close>

definition vector_map_empty :: "('k \<Rightarrow> 'k \<Rightarrow> bool) \<Rightarrow> ('k, 'v) vector_map" where
  "vector_map_empty cmp = \<lparr>comp_vm = cmp, mem_vm = []\<rparr>"

definition vector_map_of ::
  "('k::ord \<times> 'v) list \<Rightarrow> ('k \<Rightarrow> 'k \<Rightarrow> bool) \<Rightarrow> fault + ('k, 'v) vector_map" where
  "vector_map_of il cmp =
     (case insert_il (vector_map_empty cmp) il of Inl e \<Rightarrow> Inl e | Inr r \<Rightarrow> Inr (snd r))"

section \<open>Relational operators\<close>

text \<open>
  \<^verbatim>\<open>std::equal(first1, last1, first2)\<close>, the form with three iterators: it walks the
  first range and reads the second one alongside, without knowing where the second
  one ends.
\<close>

fun std_equal :: "'a list \<Rightarrow> 'a list \<Rightarrow> fault + bool" where
  "std_equal [] ys = Inr True"
| "std_equal (x # xs) [] = Inl Deref_past_end"
| "std_equal (x # xs) (y # ys) = (if x = y then std_equal xs ys else Inr False)"

text \<open>\<^verbatim>\<open>operator ==\<close> and \<^verbatim>\<open>operator !=\<close> of vector_map.h, lines 470-482.\<close>

definition eq_vector_map :: "('k, 'v) vector_map \<Rightarrow> ('k, 'v) vector_map \<Rightarrow> fault + bool" where
  "eq_vector_map a b = std_equal (mem_vm a) (mem_vm b)"

definition neq_vector_map :: "('k, 'v) vector_map \<Rightarrow> ('k, 'v) vector_map \<Rightarrow> fault + bool" where
  "neq_vector_map a b =
     (case eq_vector_map a b of Inl e \<Rightarrow> Inl e | Inr r \<Rightarrow> Inr (\<not> r))"

section \<open>Interpolation strategies\<close>

text \<open>
  \<^verbatim>\<open>std::lower_bound(first, last, value, comp)\<close>, which the strategies of interpolators.h
  call with their own comparison: the standard halving loop, which reads only
  positions inside \<open>[first, last)\<close>.
\<close>

function std_lower_bound_loop ::
  "'a list \<Rightarrow> nat \<Rightarrow> nat \<Rightarrow> 'b \<Rightarrow> ('a \<Rightarrow> 'b \<Rightarrow> bool) \<Rightarrow> fault + nat" where
  "std_lower_bound_loop xs first len val cmp =
     (if len > 0 then
        (let half = len div 2; middle = first + half in
         case deref xs middle of
           Inl e \<Rightarrow> Inl e
         | Inr nd \<Rightarrow>
             if cmp nd val
             then std_lower_bound_loop xs (middle + 1) (len - half - 1) val cmp
             else std_lower_bound_loop xs first half val cmp)
      else Inr first)"
  by pat_completeness auto
termination
  by (relation "measure (\<lambda>(xs, first, len, val, cmp). len)") auto

definition std_lower_bound ::
  "'a list \<Rightarrow> nat \<Rightarrow> nat \<Rightarrow> 'b \<Rightarrow> ('a \<Rightarrow> 'b \<Rightarrow> bool) \<Rightarrow> fault + nat" where
  "std_lower_bound xs first last' val cmp = std_lower_bound_loop xs first (last' - first) val cmp"

text \<open>\<^verbatim>\<open>it->second\<close>.\<close>

definition second_at :: "('k \<times> 'v) list \<Rightarrow> nat \<Rightarrow> fault + 'v" where
  "second_at xs it = (case deref xs it of Inl e \<Rightarrow> Inl e | Inr nd \<Rightarrow> Inr (snd nd))"

text \<open>
  The strategies receive the node range \<open>[begin, end)\<close> of a map, which is its whole
  node vector: \<open>begin\<close> is position 0 and \<open>end\<close> is the length.

  \<^verbatim>\<open>piecewise_constant::operator()\<close>, interpolators.h lines 67-92.
\<close>

definition piecewise_constant :: "('k::ord \<times> 'v::zero) list \<Rightarrow> 'k \<Rightarrow> fault + 'v" where
  "piecewise_constant nodes x =
     (let begin = 0; end = length nodes; n = end - begin in
      if n < 1 then Inr 0
      else if n = 1 then second_at nodes begin
      else
        (case std_lower_bound nodes begin end x (\<lambda>a x. fst a \<le> x) of
           Inl e \<Rightarrow> Inl e
         | Inr p \<Rightarrow> if p \<noteq> begin then second_at nodes (p - 1) else second_at nodes p))"

text \<open>
  \<^verbatim>\<open>piecewise_linear::operator()\<close>, interpolators.h lines 114-153. Keys and values are
  of one numeric type, as in the maps over \<^verbatim>\<open>double\<close> of the test program, so that
  \<^verbatim>\<open>make_fp\<close> is the identity; the arithmetic is that of an ordered field, without the
  rounding of a floating-point format.
\<close>

definition piecewise_linear :: "('a::linordered_field \<times> 'a) list \<Rightarrow> 'a \<Rightarrow> fault + 'a" where
  "piecewise_linear nodes x =
     (let begin = 0; end = length nodes; n = end - begin in
      if n < 1 then Inr 0
      else if n = 1 then second_at nodes begin
      else
        (case std_lower_bound nodes begin end x (\<lambda>a x. fst a < x) of
           Inl e \<Rightarrow> Inl e
         | Inr lb \<Rightarrow>
             (let p1 = (if lb = begin then lb + 1 else if lb = end then lb - 1 else lb);
                  p0 = p1 - 1
              in case deref nodes p1 of
                   Inl e \<Rightarrow> Inl e
                 | Inr n1 \<Rightarrow>
                     (case deref nodes p0 of
                        Inl e \<Rightarrow> Inl e
                      | Inr n0 \<Rightarrow>
                          (let slope = (snd n1 - snd n0) / (fst n1 - fst n0)
                           in Inr (snd n0 + slope * (x - fst n0)))))))"

text \<open>
  \<^verbatim>\<open>piecewise_log_linear::operator()\<close>, interpolators.h lines 175-214, over the reals;
  \<^verbatim>\<open>log\<close> is the natural logarithm. What the C library answers for the logarithm of
  an argument that is not positive (a NaN or an infinity) has no counterpart in \<open>ln\<close>;
  the properties proved below concern the branches that take no logarithm.
\<close>

definition piecewise_log_linear :: "(real \<times> real) list \<Rightarrow> real \<Rightarrow> fault + real" where
  "piecewise_log_linear nodes x =
     (let begin = 0; end = length nodes; n = end - begin in
      if n < 1 then Inr 0
      else if n = 1 \<or> x \<le> 0 then second_at nodes begin
      else
        (case std_lower_bound nodes begin end x (\<lambda>a x. fst a < x) of
           Inl e \<Rightarrow> Inl e
         | Inr lb \<Rightarrow>
             (let p1 = (if lb = begin then lb + 1 else if lb = end then lb - 1 else lb);
                  p0 = p1 - 1
              in case deref nodes p1 of
                   Inl e \<Rightarrow> Inl e
                 | Inr n1 \<Rightarrow>
                     (case deref nodes p0 of
                        Inl e \<Rightarrow> Inl e
                      | Inr n0 \<Rightarrow>
                          (let slope = (snd n1 - snd n0) / ln (fst n1 / fst n0)
                           in Inr (snd n0 + slope * ln (x / fst n0)))))))"

section \<open>Interpolating map and gradient\<close>

text \<open>
  Class \<^verbatim>\<open>interpolating_map\<close> (interpolating_map.h): the strategy object and the wrapped
  vector_map. The strategy is a function object, hence a function here.
\<close>

record ('k, 'v) interpolating_map =
  ipl_im :: "('k \<times> 'v) list \<Rightarrow> 'k \<Rightarrow> fault + 'v"
  nodes_im :: "('k, 'v) vector_map"

text \<open>\<^verbatim>\<open>operator()\<close>, lines 193-196.\<close>

definition apply_im :: "('k, 'v) interpolating_map \<Rightarrow> 'k \<Rightarrow> fault + 'v" where
  "apply_im im x = ipl_im im (mem_vm (nodes_im im)) x"

text \<open>\<^verbatim>\<open>find\<close>, lines 309-317, and the relational operators, lines 498-513.\<close>

definition find_im :: "('k::ord, 'v) interpolating_map \<Rightarrow> 'k \<Rightarrow> fault + nat" where
  "find_im im k = find_vm (nodes_im im) k"

definition eq_interpolating_map ::
  "('k, 'v) interpolating_map \<Rightarrow> ('k, 'v) interpolating_map \<Rightarrow> fault + bool" where
  "eq_interpolating_map a b = std_equal (mem_vm (nodes_im a)) (mem_vm (nodes_im b))"

definition neq_interpolating_map ::
  "('k, 'v) interpolating_map \<Rightarrow> ('k, 'v) interpolating_map \<Rightarrow> fault + bool" where
  "neq_interpolating_map a b =
     (case eq_interpolating_map a b of Inl e \<Rightarrow> Inl e | Inr r \<Rightarrow> Inr (\<not> r))"

text \<open>
  Class \<^verbatim>\<open>interpolating_gradient\<close> (gradients.h): \<^verbatim>\<open>min()\<close> reads \<^verbatim>\<open>map_.begin()->second\<close>
  and \<^verbatim>\<open>max()\<close> reads \<^verbatim>\<open>map_.rbegin()->second\<close>, the node before \<open>end\<close>.
\<close>

record ('k, 'v) interpolating_gradient =
  map_ig :: "('k, 'v) interpolating_map"

definition min_ig :: "('k, 'v) interpolating_gradient \<Rightarrow> fault + 'v" where
  "min_ig g = second_at (mem_vm (nodes_im (map_ig g))) 0"

definition max_ig :: "('k, 'v) interpolating_gradient \<Rightarrow> fault + 'v" where
  "max_ig g =
     (let xs = mem_vm (nodes_im (map_ig g)) in
      if length xs = 0 then Inl Deref_past_end else second_at xs (length xs - 1))"

section \<open>Sequences of modifying operations\<close>

datatype ('k, 'v) operation =
    Insert "'k \<times> 'v"
  | Insert_range "('k \<times> 'v) list"
  | Insert_il "('k \<times> 'v) list"
  | Erase_key 'k
  | Erase_pos nat
  | Erase_range nat nat
  | Assign "('k \<times> 'v) list"
  | Assign_il "('k \<times> 'v) list"
  | Clear

definition drop_result :: "fault + ('r \<times> 's) \<Rightarrow> fault + 's" where
  "drop_result r = (case r of Inl e \<Rightarrow> Inl e | Inr p \<Rightarrow> Inr (snd p))"

fun apply_operation ::
  "('k::ord, 'v) vector_map \<Rightarrow> ('k, 'v) operation \<Rightarrow> fault + ('k, 'v) vector_map" where
  "apply_operation m (Insert val) = drop_result (insert_vm m val)"
| "apply_operation m (Insert_range vals) = drop_result (insert_range m vals)"
| "apply_operation m (Insert_il il) = drop_result (insert_il m il)"
| "apply_operation m (Erase_key k) = drop_result (erase_key m k)"
| "apply_operation m (Erase_pos pos) = drop_result (erase_pos m pos)"
| "apply_operation m (Erase_range first last') = drop_result (erase_range m first last')"
| "apply_operation m (Assign vals) = assign m vals"
| "apply_operation m (Assign_il il) = assign_il m il"
| "apply_operation m Clear = Inr (clear m)"

fun run_operations ::
  "('k::ord, 'v) vector_map \<Rightarrow> ('k, 'v) operation list \<Rightarrow> fault + ('k, 'v) vector_map" where
  "run_operations m [] = Inr m"
| "run_operations m (op # ops) =
     (case apply_operation m op of
        Inl e \<Rightarrow> Inl e
      | Inr m' \<Rightarrow> run_operations m' ops)"

text \<open>
  A key sequence is non-decreasing under a comparison when no key is followed, at any
  distance, by a key that the comparison puts strictly before it. Under \<open>(<)\<close> on a
  linear order this is \<open>sorted\<close>.
\<close>

definition nondecreasing_under :: "('k \<Rightarrow> 'k \<Rightarrow> bool) \<Rightarrow> 'k list \<Rightarrow> bool" where
  "nondecreasing_under cmp ks = sorted_wrt (\<lambda>a b. \<not> cmp b a) ks"

section \<open>The halving loops\<close>

text \<open>
  The equations of the three loops are unconditional equations of a function in terms
  of itself, so they are unfolded by hand only.
\<close>

declare lower_bound_loop.simps [simp del]
declare upper_bound_loop.simps [simp del]
declare std_lower_bound_loop.simps [simp del]


text \<open>
  On a range that the comparison partitions (the nodes for which it holds come first),
  the halving loop reads only positions of the range and returns the partition point.
\<close>

lemma std_lower_bound_loop_partition:
  assumes "first + len \<le> length xs"
    and "\<And>i j. first \<le> i \<Longrightarrow> i < j \<Longrightarrow> j < first + len \<Longrightarrow> cmp (xs ! j) val \<Longrightarrow> cmp (xs ! i) val"
  shows "\<exists>p. std_lower_bound_loop xs first len val cmp = Inr p \<and> first \<le> p \<and> p \<le> first + len \<and>
             (\<forall>i. first \<le> i \<and> i < p \<longrightarrow> cmp (xs ! i) val) \<and>
             (\<forall>i. p \<le> i \<and> i < first + len \<longrightarrow> \<not> cmp (xs ! i) val)"
  using assms
proof (induction xs first len val cmp rule: std_lower_bound_loop.induct)
  case (1 xs first len val cmp)
  show ?case
  proof (cases "len > 0")
    case False
    then show ?thesis by (auto simp: std_lower_bound_loop.simps)
  next
    case True
    define half where "half = len div 2"
    define middle where "middle = first + half"
    have hl: "half < len" using True by (simp add: half_def)
    have mid: "middle < length xs" using hl "1.prems"(1) by (simp add: middle_def)
    have d: "deref xs middle = Inr (xs ! middle)" using mid by (simp add: deref_def)
    show ?thesis
    proof (cases "cmp (xs ! middle) val")
      case c: True
      have eq: "std_lower_bound_loop xs first len val cmp =
                std_lower_bound_loop xs (middle + 1) (len - half - 1) val cmp"
        using True c d
        by (subst std_lower_bound_loop.simps) (simp add: half_def middle_def Let_def)
      have b: "middle + 1 + (len - half - 1) = first + len"
        using hl by (simp add: middle_def)
      have "\<exists>p. std_lower_bound_loop xs (middle + 1) (len - half - 1) val cmp = Inr p \<and>
              middle + 1 \<le> p \<and> p \<le> middle + 1 + (len - half - 1) \<and>
              (\<forall>i. middle + 1 \<le> i \<and> i < p \<longrightarrow> cmp (xs ! i) val) \<and>
              (\<forall>i. p \<le> i \<and> i < middle + 1 + (len - half - 1) \<longrightarrow> \<not> cmp (xs ! i) val)"
      proof (rule "1.IH"(1)[OF True half_def middle_def d c[unfolded]])
        show "middle + 1 + (len - half - 1) \<le> length xs" using b "1.prems"(1) by simp
      next
        fix i j assume "middle + 1 \<le> i" "i < j" "j < middle + 1 + (len - half - 1)" "cmp (xs ! j) val"
        then show "cmp (xs ! i) val"
          using "1.prems"(2)[of i j] b by (simp add: middle_def)
      qed
      then obtain p where p: "std_lower_bound_loop xs (middle + 1) (len - half - 1) val cmp = Inr p"
        "middle + 1 \<le> p" "p \<le> first + len"
        "\<forall>i. middle + 1 \<le> i \<and> i < p \<longrightarrow> cmp (xs ! i) val"
        "\<forall>i. p \<le> i \<and> i < first + len \<longrightarrow> \<not> cmp (xs ! i) val"
        using b by auto
      have low: "cmp (xs ! i) val" if "first \<le> i" "i < p" for i
      proof (cases "i < middle")
        case True
        then show ?thesis using "1.prems"(2)[of i middle] that c hl by (simp add: middle_def)
      next
        case False
        then show ?thesis using p(4) that c by (cases "i = middle") auto
      qed
      show ?thesis using eq p low by (auto simp: middle_def)
    next
      case c: False
      have eq: "std_lower_bound_loop xs first len val cmp =
                std_lower_bound_loop xs first half val cmp"
        using True c d
        by (subst std_lower_bound_loop.simps) (simp add: half_def middle_def Let_def)
      have "\<exists>p. std_lower_bound_loop xs first half val cmp = Inr p \<and>
              first \<le> p \<and> p \<le> first + half \<and>
              (\<forall>i. first \<le> i \<and> i < p \<longrightarrow> cmp (xs ! i) val) \<and>
              (\<forall>i. p \<le> i \<and> i < first + half \<longrightarrow> \<not> cmp (xs ! i) val)"
      proof (rule "1.IH"(2)[OF True half_def middle_def d c])
        show "first + half \<le> length xs" using hl "1.prems"(1) by simp
      next
        fix i j assume "first \<le> i" "i < j" "j < first + half" "cmp (xs ! j) val"
        then show "cmp (xs ! i) val"
          using "1.prems"(2)[of i j] hl by simp
      qed
      then obtain p where p: "std_lower_bound_loop xs first half val cmp = Inr p"
        "first \<le> p" "p \<le> first + half"
        "\<forall>i. first \<le> i \<and> i < p \<longrightarrow> cmp (xs ! i) val"
        "\<forall>i. p \<le> i \<and> i < first + half \<longrightarrow> \<not> cmp (xs ! i) val"
        by auto
      have high: "\<not> cmp (xs ! i) val" if "p \<le> i" "i < first + len" for i
      proof (cases "i < middle")
        case True
        then show ?thesis using p(5) that by (simp add: middle_def)
      next
        case False
        show ?thesis
        proof (cases "i = middle")
          case True
          then show ?thesis using c by simp
        next
          case False
          with \<open>\<not> i < middle\<close> have "middle < i" by simp
          then show ?thesis using "1.prems"(2)[of middle i] that c p(2) by (auto simp: middle_def)
        qed
      qed
      show ?thesis using eq p hl high by auto
    qed
  qed
qed


lemma lower_bound_loop_std:
  "lower_bound_loop xs first count key = std_lower_bound_loop xs first count key (\<lambda>nd k. fst nd < k)"
proof (induction xs first count key rule: lower_bound_loop.induct)
  case (1 xs first count key)
  show ?case
  proof (cases "count > 0")
    case False
    then show ?thesis by (simp add: lower_bound_loop.simps std_lower_bound_loop.simps)
  next
    case True
    show ?thesis
    proof (cases "deref xs (first + count div 2)")
      case (Inl e)
      then show ?thesis using True
        by (subst lower_bound_loop.simps, subst std_lower_bound_loop.simps) (simp add: Let_def)
    next
      case (Inr nd)
      then show ?thesis using True "1.IH"(1)[OF True refl refl Inr] "1.IH"(2)[OF True refl refl Inr]
        by (subst lower_bound_loop.simps, subst std_lower_bound_loop.simps) (simp add: Let_def)
    qed
  qed
qed

lemma upper_bound_loop_std:
  "upper_bound_loop xs first count key = std_lower_bound_loop xs first count key (\<lambda>nd k. \<not> k < fst nd)"
proof (induction xs first count key rule: upper_bound_loop.induct)
  case (1 xs first count key)
  show ?case
  proof (cases "count > 0")
    case False
    then show ?thesis by (simp add: upper_bound_loop.simps std_lower_bound_loop.simps)
  next
    case True
    show ?thesis
    proof (cases "deref xs (first + count div 2)")
      case (Inl e)
      then show ?thesis using True
        by (subst upper_bound_loop.simps, subst std_lower_bound_loop.simps) (simp add: Let_def)
    next
      case (Inr nd)
      then show ?thesis using True "1.IH"(1)[OF True refl refl Inr] "1.IH"(2)[OF True refl refl Inr]
        by (subst upper_bound_loop.simps, subst std_lower_bound_loop.simps) (simp add: Let_def)
    qed
  qed
qed



lemma sorted_keys_nth:
  assumes "sorted (map fst xs)" "i \<le> j" "j < length xs"
  shows "fst (xs ! i) \<le> fst (xs ! j)"
  using sorted_nth_mono[OF assms(1), of i j] assms(2,3) by simp

lemma lower_bound_static_sorted:
  fixes xs :: "('k::linorder \<times> 'v) list"
  assumes "sorted (map fst xs)"
  shows "\<exists>lb. lower_bound_static xs 0 (length xs) k = Inr lb \<and> lb \<le> length xs \<and>
              (\<forall>i<length xs. i < lb \<longleftrightarrow> fst (xs ! i) < k)"
proof -
  have "\<exists>p. std_lower_bound_loop xs 0 (length xs) k (\<lambda>nd k. fst nd < k) = Inr p \<and> 0 \<le> p \<and>
             p \<le> 0 + length xs \<and>
             (\<forall>i. 0 \<le> i \<and> i < p \<longrightarrow> fst (xs ! i) < k) \<and>
             (\<forall>i. p \<le> i \<and> i < 0 + length xs \<longrightarrow> \<not> fst (xs ! i) < k)"
  proof (rule std_lower_bound_loop_partition)
    show "0 + length xs \<le> length xs" by simp
  next
    fix i j assume "0 \<le> i" "i < j" "j < 0 + length xs" "fst (xs ! j) < k"
    then show "fst (xs ! i) < k"
      using sorted_keys_nth[OF assms, of i j] by simp
  qed
  then obtain p where p: "std_lower_bound_loop xs 0 (length xs) k (\<lambda>nd k. fst nd < k) = Inr p"
    "p \<le> length xs" "\<forall>i. i < p \<longrightarrow> fst (xs ! i) < k"
    "\<forall>i. p \<le> i \<and> i < length xs \<longrightarrow> \<not> fst (xs ! i) < k"
    by auto
  have "\<forall>i<length xs. i < p \<longleftrightarrow> fst (xs ! i) < k"
    using p(3,4) by (metis not_le)
  then show ?thesis
    using p(1,2) by (simp add: lower_bound_static_def lower_bound_loop_std)
qed

text \<open>
  The body of \<^verbatim>\<open>upper_bound\<close>, taken alone: started at a position \<open>first\<close> before which
  no key exceeds \<open>k\<close>, the loop returns the first position whose key exceeds \<open>k\<close>.
\<close>

lemma upper_bound_loop_sorted:
  fixes xs :: "('k::linorder \<times> 'v) list"
  assumes "sorted (map fst xs)" "first \<le> length xs" "\<forall>i<first. fst (xs ! i) \<le> k"
  shows "\<exists>ub. upper_bound_loop xs first (length xs - first) k = Inr ub \<and> first \<le> ub \<and>
              ub \<le> length xs \<and> (\<forall>i<length xs. i < ub \<longleftrightarrow> fst (xs ! i) \<le> k)"
proof -
  have "\<exists>p. std_lower_bound_loop xs first (length xs - first) k (\<lambda>nd k. \<not> k < fst nd) = Inr p \<and>
             first \<le> p \<and> p \<le> first + (length xs - first) \<and>
             (\<forall>i. first \<le> i \<and> i < p \<longrightarrow> \<not> k < fst (xs ! i)) \<and>
             (\<forall>i. p \<le> i \<and> i < first + (length xs - first) \<longrightarrow> \<not> \<not> k < fst (xs ! i))"
  proof (rule std_lower_bound_loop_partition)
    show "first + (length xs - first) \<le> length xs" using assms(2) by simp
  next
    fix i j assume "first \<le> i" "i < j" "j < first + (length xs - first)" "\<not> k < fst (xs ! j)"
    then show "\<not> k < fst (xs ! i)"
      using sorted_keys_nth[OF assms(1), of i j] assms(2) by auto
  qed
  then obtain p where p0:
    "std_lower_bound_loop xs first (length xs - first) k (\<lambda>nd k. \<not> k < fst nd) = Inr p"
    "first \<le> p" "p \<le> first + (length xs - first)"
    "\<forall>i. first \<le> i \<and> i < p \<longrightarrow> \<not> k < fst (xs ! i)"
    "\<forall>i. p \<le> i \<and> i < first + (length xs - first) \<longrightarrow> \<not> \<not> k < fst (xs ! i)"
    by blast
  have p: "upper_bound_loop xs first (length xs - first) k = Inr p"
    "first \<le> p" "p \<le> length xs"
    "\<forall>i. first \<le> i \<and> i < p \<longrightarrow> fst (xs ! i) \<le> k"
    "\<forall>i. p \<le> i \<and> i < length xs \<longrightarrow> k < fst (xs ! i)"
    using p0 assms(2) by (auto simp: upper_bound_loop_std)
  have "i < p \<longleftrightarrow> fst (xs ! i) \<le> k" if "i < length xs" for i
  proof (cases "i < first")
    case True
    then show ?thesis using assms(3) p(2) by auto
  next
    case False
    then show ?thesis using p(4,5) that by (metis not_le)
  qed
  then show ?thesis
    using p(1,2,3) by simp
qed

lemma sorted_map_bounds:
  fixes m :: "('k::linorder, 'v) vector_map"
  assumes "sorted (map fst (mem_vm m))"
  shows "\<exists>lb. lower_bound m k = Inr lb \<and> lb \<le> length (mem_vm m) \<and>
              (\<forall>i<length (mem_vm m). i < lb \<longleftrightarrow> fst (mem_vm m ! i) < k)"
  using lower_bound_static_sorted[OF assms, of k] by (simp add: lower_bound_def)

text \<open>
  No call of the static \<^verbatim>\<open>upper_bound\<close> or \<^verbatim>\<open>equal_range\<close> without template arguments
  has a matching function, whatever the vector, the range and the key; so neither have
  the members \<^verbatim>\<open>upper_bound\<close>, \<^verbatim>\<open>equal_range\<close>, \<^verbatim>\<open>count\<close> and \<^verbatim>\<open>erase\<close> by key.
\<close>

lemma upper_bound_static_no_match:
  "upper_bound_static xs first last' k = Inl No_matching_function"
  by (simp add: upper_bound_static_def deduced_call_def)

lemma equal_range_static_no_match:
  "equal_range_static xs first last' k = Inl No_matching_function"
  by (simp add: equal_range_static_def deduced_call_def)

lemma members_no_match:
  "upper_bound m k = Inl No_matching_function"
  "equal_range m k = Inl No_matching_function"
  "count_vm m k = Inl No_matching_function"
  "erase_key m k = Inl No_matching_function"
  by (simp_all add: upper_bound_def equal_range_def count_vm_def erase_key_def
      upper_bound_static_no_match equal_range_static_no_match)


section \<open>Boundary queries\<close>

text \<open>
  Claim C4. The members \<open>upper_bound\<close> and \<open>equal_range\<close> call static templates that
  declare a template parameter \<open>T\<close> which no argument of the call determines. The calls
  have no matching function: for no map and no key, sorted or not, does \<open>upper_bound\<close>
  return the first position whose key is greater than the key, or \<open>equal_range\<close> the
  span of the equal keys. On the sorted map of the nodes \<open>(1,10)\<close>, \<open>(2,20)\<close>, \<open>(2,21)\<close>,
  \<open>(3,30)\<close> and the key 2, \<open>lower_bound\<close> returns position 1, and the other two members
  return nothing to compare with positions 3 and \<open>(1, 3)\<close>.
\<close>

theorem upper_bound_equal_range_no_match:
  "upper_bound m k = Inl No_matching_function \<and>
   equal_range m k = Inl No_matching_function \<and>
   lower_bound \<lparr>comp_vm = (<), mem_vm = [(1::int, 10::int), (2, 20), (2, 21), (3, 30)]\<rparr> 2 = Inr 1 \<and>
   upper_bound \<lparr>comp_vm = (<), mem_vm = [(1::int, 10::int), (2, 20), (2, 21), (3, 30)]\<rparr> 2
     = Inl No_matching_function \<and>
   equal_range \<lparr>comp_vm = (<), mem_vm = [(1::int, 10::int), (2, 20), (2, 21), (3, 30)]\<rparr> 2
     = Inl No_matching_function"
  by (simp add: members_no_match lower_bound_def lower_bound_static_def lower_bound_loop.simps
      deref_def Let_def)


section \<open>Lookup\<close>

lemma find_vm_at_lower_bound:
  assumes "lower_bound m k = Inr it" "it < length (mem_vm m)"
  shows "find_vm m k = Inr (if fst (mem_vm m ! it) = k then it else length (mem_vm m))"
  using assms by (simp add: find_vm_def deref_def)

lemma find_vm_lower_bound_end:
  assumes "lower_bound m k = Inr (length (mem_vm m))"
  shows "find_vm m k = Inl Deref_past_end"
  using assms by (simp add: find_vm_def deref_def)

lemma find_vm_all_smaller:
  fixes m :: "('k::linorder, 'v) vector_map"
  assumes "sorted (map fst (mem_vm m))" "\<forall>nd \<in> set (mem_vm m). fst nd < k"
  shows "find_vm m k = Inl Deref_past_end"
proof -
  obtain lb where lb: "lower_bound m k = Inr lb" "lb \<le> length (mem_vm m)"
    "\<forall>i<length (mem_vm m). i < lb \<longleftrightarrow> fst (mem_vm m ! i) < k"
    using sorted_map_bounds[OF assms(1), of k] by auto
  have "lb = length (mem_vm m)"
  proof (rule ccontr)
    assume "lb \<noteq> length (mem_vm m)"
    then have "lb < length (mem_vm m)" using lb(2) by simp
    then show False using lb(3) assms(2) by (meson less_irrefl nth_mem)
  qed
  then show ?thesis using lb(1) by (simp add: find_vm_lower_bound_end)
qed

lemma find_vm_sorted_not_end:
  fixes m :: "('k::linorder, 'v) vector_map"
  assumes "sorted (map fst (mem_vm m))" "\<exists>nd \<in> set (mem_vm m). k \<le> fst nd"
  shows "\<exists>lb. lower_bound m k = Inr lb \<and> lb < length (mem_vm m) \<and>
              (\<forall>i<length (mem_vm m). i < lb \<longleftrightarrow> fst (mem_vm m ! i) < k) \<and>
              find_vm m k = Inr (if fst (mem_vm m ! lb) = k then lb else length (mem_vm m))"
proof -
  obtain lb where lb: "lower_bound m k = Inr lb" "lb \<le> length (mem_vm m)"
    "\<forall>i<length (mem_vm m). i < lb \<longleftrightarrow> fst (mem_vm m ! i) < k"
    using sorted_map_bounds[OF assms(1), of k] by auto
  obtain j where j: "j < length (mem_vm m)" "k \<le> fst (mem_vm m ! j)"
    using assms(2) by (auto simp: in_set_conv_nth)
  have "\<not> j < lb" using lb(3) j by auto
  then have "lb < length (mem_vm m)" using j(1) by simp
  then show ?thesis using lb(1,3) find_vm_at_lower_bound[OF lb(1)] by blast
qed

text \<open>
  Claim C1. \<open>find\<close> reads the node at the lower bound before it compares the lower
  bound with \<open>end\<close>. On the empty map, and on a map all of whose keys are smaller than
  the query key, the lower bound is \<open>end\<close> and the read is past the end of the node
  vector: \<open>find\<close> does not return the end sentinel there.
\<close>

theorem find_reads_past_end:
  "find_vm (vector_map_empty cmp) k = Inl Deref_past_end \<and>
   find_im \<lparr>ipl_im = ipl, nodes_im = vector_map_empty cmp\<rparr> k = Inl Deref_past_end \<and>
   find_vm \<lparr>comp_vm = (<), mem_vm = [(1::int, 10::int)]\<rparr> 2 = Inl Deref_past_end"
  by (simp add: find_vm_def find_im_def lower_bound_def lower_bound_static_def
      lower_bound_loop.simps vector_map_empty_def deref_def)

section \<open>Equality\<close>

text \<open>
  Claim C2. \<open>operator ==\<close> walks the nodes of its left operand only: an empty map
  compares equal to a map of one node, \<open>operator !=\<close> says they do not differ, and with
  the operands exchanged the comparison reads past the end of the shorter map.
\<close>

theorem equality_ignores_length:
  "eq_vector_map \<lparr>comp_vm = (<), mem_vm = []\<rparr> \<lparr>comp_vm = (<), mem_vm = [(1::int, 1::int)]\<rparr> = Inr True \<and>
   neq_vector_map \<lparr>comp_vm = (<), mem_vm = []\<rparr> \<lparr>comp_vm = (<), mem_vm = [(1::int, 1::int)]\<rparr> = Inr False \<and>
   eq_vector_map \<lparr>comp_vm = (<), mem_vm = [(1::int, 1::int)]\<rparr> \<lparr>comp_vm = (<), mem_vm = []\<rparr> = Inl Deref_past_end \<and>
   eq_interpolating_map
     \<lparr>ipl_im = piecewise_constant, nodes_im = \<lparr>comp_vm = (<), mem_vm = []\<rparr>\<rparr>
     \<lparr>ipl_im = piecewise_constant, nodes_im = \<lparr>comp_vm = (<), mem_vm = [(1::int, 1::int)]\<rparr>\<rparr> = Inr True"
  by (simp add: eq_vector_map_def neq_vector_map_def eq_interpolating_map_def)

lemma std_equal_prefix:
  "std_equal xs ys = Inr True \<longleftrightarrow> length xs \<le> length ys \<and> xs = take (length xs) ys"
  by (induction xs ys rule: std_equal.induct) auto

lemma std_equal_same_length:
  "length xs = length ys \<Longrightarrow> std_equal xs ys = Inr (xs = ys)"
  by (induction xs ys rule: std_equal.induct) auto

lemma std_equal_longer:
  "std_equal xs ys = Inl e \<Longrightarrow> length ys < length xs"
  by (induction xs ys rule: std_equal.induct) (auto split: if_splits)

section \<open>Edge cases of the strategies\<close>

text \<open>
  Claim C7. Each of the three strategies returns zero on an empty node range and the
  value of the only node on a range of one node, whatever the query key.
\<close>

theorem zero_and_one_node:
  "piecewise_constant [] x = Inr 0 \<and>
   piecewise_linear [] y = Inr 0 \<and>
   piecewise_log_linear [] z = Inr 0 \<and>
   piecewise_constant [(k, v)] x = Inr v \<and>
   piecewise_linear [(k', v')] y = Inr v' \<and>
   piecewise_log_linear [(k'', v'')] z = Inr v''"
  by (simp add: piecewise_constant_def piecewise_linear_def piecewise_log_linear_def
      second_at_def deref_def)

text \<open>
  Claim C8. For a query key that is not positive, \<open>piecewise_log_linear\<close> returns the
  value of the first node of any non-empty node range, without a fault and without
  taking a logarithm.
\<close>

theorem log_linear_nonpositive:
  assumes "nodes \<noteq> []" "x \<le> 0"
  shows "piecewise_log_linear nodes x = Inr (snd (nodes ! 0))"
  using assms by (simp add: piecewise_log_linear_def second_at_def deref_def Let_def)

theorem log_linear_nonpositive_witness:
  "[(1::real, 1::real)] \<noteq> [] \<and> (0::real) \<le> 0 \<and> piecewise_log_linear [(1, 1)] 0 = Inr 1 \<and>
   [(1::real, 1::real), (10, 10)] \<noteq> [] \<and> (-1.4::real) \<le> 0 \<and>
   piecewise_log_linear [(1, 1), (10, 10)] (-1.4) = Inr 1"
  using log_linear_nonpositive[of "[(1, 1)]" 0]
    log_linear_nonpositive[of "[(1, 1), (10, 10)]" "-1.4"]
  by simp



section \<open>Sortedness of the stored nodes\<close>

lemma std_lower_bound_loop_total:
  "first + len \<le> length xs \<Longrightarrow>
   \<exists>p. std_lower_bound_loop xs first len val cmp = Inr p \<and> first \<le> p \<and> p \<le> first + len"
proof (induction xs first len val cmp rule: std_lower_bound_loop.induct)
  case (1 xs first len val cmp)
  show ?case
  proof (cases "len > 0")
    case False
    then show ?thesis by (simp add: std_lower_bound_loop.simps)
  next
    case True
    define half where "half = len div 2"
    define middle where "middle = first + half"
    have hl: "half < len" using True by (simp add: half_def)
    have d: "deref xs middle = Inr (xs ! middle)"
      using hl "1.prems" by (simp add: middle_def deref_def)
    show ?thesis
    proof (cases "cmp (xs ! middle) val")
      case c: True
      have eq: "std_lower_bound_loop xs first len val cmp =
                std_lower_bound_loop xs (middle + 1) (len - half - 1) val cmp"
        using True c d
        by (subst std_lower_bound_loop.simps) (simp add: half_def middle_def Let_def)
      have b: "middle + 1 + (len - half - 1) = first + len"
        using hl by (simp add: middle_def)
      have "\<exists>p. std_lower_bound_loop xs (middle + 1) (len - half - 1) val cmp = Inr p \<and>
              middle + 1 \<le> p \<and> p \<le> middle + 1 + (len - half - 1)"
        using "1.IH"(1)[OF True half_def middle_def d c] b "1.prems" by simp
      then show ?thesis using eq b by (auto simp: middle_def)
    next
      case c: False
      have eq: "std_lower_bound_loop xs first len val cmp =
                std_lower_bound_loop xs first half val cmp"
        using True c d
        by (subst std_lower_bound_loop.simps) (simp add: half_def middle_def Let_def)
      have "\<exists>p. std_lower_bound_loop xs first half val cmp = Inr p \<and>
              first \<le> p \<and> p \<le> first + half"
        using "1.IH"(2)[OF True half_def middle_def d c] hl "1.prems" by simp
      then show ?thesis using eq hl by auto
    qed
  qed
qed

lemma lower_bound_total:
  "\<exists>pos. lower_bound m k = Inr pos \<and> pos \<le> length (mem_vm m)"
  using std_lower_bound_loop_total[of 0 "length (mem_vm m)" "mem_vm m" k "\<lambda>nd k. fst nd < k"]
  by (simp add: lower_bound_def lower_bound_static_def lower_bound_loop_std)

lemma insert_vm_at_lower_bound:
  "\<exists>pos. lower_bound m (fst val) = Inr pos \<and> pos \<le> length (mem_vm m) \<and>
         insert_vm m val =
           Inr (pos, m\<lparr>mem_vm := take pos (mem_vm m) @ [val] @ drop pos (mem_vm m)\<rparr>)"
  using lower_bound_total[of m "fst val"]
  by (auto simp: insert_vm_def vector_insert_def)

lemma lower_bound_splits_keys:
  fixes xs :: "('k::linorder \<times> 'v) list"
  assumes "\<forall>i<length xs. i < lb \<longleftrightarrow> fst (xs ! i) < k" "lb \<le> length xs"
  shows "(\<forall>nd \<in> set (take lb xs). fst nd < k) \<and> (\<forall>nd \<in> set (drop lb xs). k \<le> fst nd)"
proof (intro conjI ballI)
  fix nd assume "nd \<in> set (take lb xs)"
  then obtain i where i: "i < length (take lb xs)" "take lb xs ! i = nd"
    by (auto simp: in_set_conv_nth)
  then have "i < lb" "i < length xs" "xs ! i = nd" using assms(2) by auto
  then show "fst nd < k" using assms(1) by blast
next
  fix nd assume "nd \<in> set (drop lb xs)"
  then obtain i where i: "i < length (drop lb xs)" "drop lb xs ! i = nd"
    by (auto simp: in_set_conv_nth)
  then have "lb + i < length xs" "xs ! (lb + i) = nd" using assms(2) by auto
  then have "\<not> fst nd < k" using assms(1) by (metis not_add_less1)
  then show "k \<le> fst nd" by simp
qed

lemma sorted_insert_at:
  fixes xs :: "('k::linorder \<times> 'v) list"
  assumes "sorted (map fst xs)" "\<forall>nd \<in> set (take pos xs). fst nd < fst val"
    "\<forall>nd \<in> set (drop pos xs). fst val \<le> fst nd"
  shows "sorted (map fst (take pos xs @ [val] @ drop pos xs))"
proof -
  have t: "sorted (map fst (take pos xs))"
    using assms(1) by (simp add: take_map[symmetric] sorted_wrt_take)
  have d: "sorted (map fst (drop pos xs))"
    using assms(1) by (simp add: drop_map[symmetric] sorted_wrt_drop)
  have cross: "fst a \<le> fst b" if "a \<in> set (take pos xs)" "b \<in> set (drop pos xs)" for a b
    using assms(2,3) that by (meson less_le_trans less_imp_le)
  show ?thesis
    using t d cross assms(2,3) by (auto simp: sorted_append less_imp_le)
qed

lemma sorted_erase_range:
  fixes xs :: "('k::linorder \<times> 'v) list"
  assumes "sorted (map fst xs)" "a \<le> b"
  shows "sorted (map fst (take a xs @ drop b xs))"
proof -
  have "xs = take a xs @ take (b - a) (drop a xs) @ drop b xs"
    using assms(2) by (metis append_take_drop_id drop_drop le_add_diff_inverse2 add.commute)
  then have "sorted (map fst (take a xs @ take (b - a) (drop a xs) @ drop b xs))"
    using assms(1) by simp
  then show ?thesis by (auto simp: sorted_append)
qed

lemma insert_vm_sorted:
  fixes m :: "('k::linorder, 'v) vector_map"
  assumes "sorted (map fst (mem_vm m))"
  shows "\<exists>pos m'. insert_vm m val = Inr (pos, m') \<and> sorted (map fst (mem_vm m'))"
proof -
  obtain lb where lb: "lower_bound m (fst val) = Inr lb" "lb \<le> length (mem_vm m)"
    "\<forall>i<length (mem_vm m). i < lb \<longleftrightarrow> fst (mem_vm m ! i) < fst val"
    using sorted_map_bounds[OF assms, of "fst val"] by auto
  have "sorted (map fst (take lb (mem_vm m) @ [val] @ drop lb (mem_vm m)))"
    using sorted_insert_at[OF assms] lower_bound_splits_keys[OF lb(3,2)] by blast
  then show ?thesis using lb(1,2) by (simp add: insert_vm_def vector_insert_def)
qed

lemma insert_loop_sorted:
  fixes m :: "('k::linorder, 'v) vector_map"
  assumes "sorted (map fst (mem_vm m))"
  shows "\<exists>it' m'. insert_loop m it vals = Inr (it', m') \<and> sorted (map fst (mem_vm m'))"
  using assms
proof (induction vals arbitrary: m it)
  case Nil
  then show ?case by simp
next
  case (Cons val vals)
  obtain pos m1 where m1: "insert_vm m val = Inr (pos, m1)" "sorted (map fst (mem_vm m1))"
    using insert_vm_sorted[OF Cons.prems] by blast
  show ?case using Cons.IH[OF m1(2), of pos] m1(1) by simp
qed

lemma apply_operation_sorted:
  fixes m :: "('k::linorder, 'v) vector_map"
  assumes "sorted (map fst (mem_vm m))"
  shows "(\<exists>m'. apply_operation m op = Inr m' \<and> sorted (map fst (mem_vm m'))) \<or>
         apply_operation m op = Inl Invalid_iterator \<or>
         apply_operation m op = Inl No_matching_function"
proof (cases op)
  case (Insert val)
  then show ?thesis using insert_vm_sorted[OF assms, of val] by (auto simp: drop_result_def)
next
  case (Insert_range vals)
  then show ?thesis using insert_loop_sorted[OF assms, of "length (mem_vm m)" vals]
    by (auto simp: drop_result_def insert_range_def)
next
  case (Insert_il il)
  then show ?thesis using insert_loop_sorted[OF assms, of "length (mem_vm m)" il]
    by (auto simp: drop_result_def insert_range_def insert_il_def)
next
  case (Erase_key k)
  then show ?thesis by (simp add: drop_result_def members_no_match)
next
  case (Erase_pos pos)
  then show ?thesis using sorted_erase_range[OF assms, of pos "pos + 1"]
    by (auto simp: drop_result_def erase_pos_def vector_erase_def)
next
  case (Erase_range a b)
  then show ?thesis using sorted_erase_range[OF assms, of a b]
    by (auto simp: drop_result_def erase_range_def vector_erase_range_def)
next
  case (Assign vals)
  have "sorted (map fst (mem_vm (clear m)))" by (simp add: clear_def)
  then show ?thesis using Assign insert_loop_sorted[of "clear m" "length (mem_vm (clear m))" vals]
    by (auto simp: assign_def insert_range_def)
next
  case (Assign_il vals)
  have "sorted (map fst (mem_vm (clear m)))" by (simp add: clear_def)
  then show ?thesis using Assign_il insert_loop_sorted[of "clear m" "length (mem_vm (clear m))" vals]
    by (auto simp: assign_il_def assign_def insert_range_def)
next
  case Clear
  then show ?thesis by (simp add: clear_def)
qed

lemma run_operations_sorted:
  fixes m :: "('k::linorder, 'v) vector_map"
  assumes "sorted (map fst (mem_vm m))"
  shows "(\<exists>m'. run_operations m ops = Inr m' \<and> sorted (map fst (mem_vm m'))) \<or>
         run_operations m ops = Inl Invalid_iterator \<or>
         run_operations m ops = Inl No_matching_function"
  using assms
proof (induction ops arbitrary: m)
  case Nil
  then show ?case by simp
next
  case (Cons op ops)
  from apply_operation_sorted[OF Cons.prems, of op]
  consider m1 where "apply_operation m op = Inr m1" "sorted (map fst (mem_vm m1))"
    | "apply_operation m op = Inl Invalid_iterator"
    | "apply_operation m op = Inl No_matching_function"
    by blast
  then show ?case
  proof cases
    case 1
    then show ?thesis using Cons.IH[OF 1(2)] by simp
  next
    case 2
    then show ?thesis by simp
  next
    case 3
    then show ?thesis by simp
  qed
qed

lemma sorted_keys_contiguous:
  fixes xs :: "('k::linorder \<times> 'v) list"
  assumes "sorted (map fst xs)" "i < j" "j < l" "l < length xs" "fst (xs ! i) = fst (xs ! l)"
  shows "fst (xs ! j) = fst (xs ! i)"
proof -
  have "fst (xs ! i) \<le> fst (xs ! j)" using sorted_keys_nth[OF assms(1), of i j] assms by simp
  moreover have "fst (xs ! j) \<le> fst (xs ! l)" using sorted_keys_nth[OF assms(1), of j l] assms by simp
  ultimately show ?thesis using assms(5) by simp
qed

lemma nondecreasing_under_less:
  fixes ks :: "'k::linorder list"
  shows "nondecreasing_under (<) ks \<longleftrightarrow> sorted ks"
  by (simp add: nondecreasing_under_def not_less)

text \<open>
  Under \<open>(<)\<close> of the key type, which the searches apply and which the default
  comparison \<^verbatim>\<open>std::less\<close> is, the keys stay non-decreasing, with equal keys at
  consecutive positions, whatever comparison object the map was built with. A sequence
  of operations does not run to its end only at an erasure by position or by range
  whose iterators are not valid for the map at that point, or at an erasure by key.
\<close>

lemma run_from_empty_sorted_less:
  fixes ops :: "('k::linorder, 'v) operation list"
  shows "(\<exists>m. run_operations (vector_map_empty cmp) ops = Inr m \<and>
              nondecreasing_under (<) (map fst (mem_vm m)) \<and>
              (\<forall>i j l. i < j \<and> j < l \<and> l < length (mem_vm m) \<and>
                        fst (mem_vm m ! i) = fst (mem_vm m ! l)
                        \<longrightarrow> fst (mem_vm m ! j) = fst (mem_vm m ! i))) \<or>
         run_operations (vector_map_empty cmp) ops = Inl Invalid_iterator \<or>
         run_operations (vector_map_empty cmp) ops = Inl No_matching_function"
proof -
  have "sorted (map fst (mem_vm (vector_map_empty cmp :: ('k, 'v) vector_map)))"
    by (simp add: vector_map_empty_def)
  from run_operations_sorted[OF this, of ops] show ?thesis
    unfolding nondecreasing_under_less using sorted_keys_contiguous by blast
qed

lemma run_from_empty_example:
  "run_operations (vector_map_empty (<))
     [Insert (2::int, 20::int), Insert (1, 10), Insert_il [(3, 30), (2, 21)],
      Insert_range [(0, 0)], Erase_pos 0, Erase_range 0 1,
      Assign [(5, 50), (4, 40), (5, 51)], Insert (5, 52)]
   = Inr \<lparr>comp_vm = (<), mem_vm = [(4, 40), (5, 52), (5, 51), (5, 50)]\<rparr>"
  by (simp add: vector_map_empty_def drop_result_def insert_vm_def insert_range_def
      insert_il_def erase_pos_def erase_range_def assign_def clear_def
      lower_bound_def lower_bound_static_def lower_bound_loop.simps
      vector_insert_def vector_erase_def vector_erase_range_def deref_def Let_def)

text \<open>
  Claim C3. The insertion point is searched with \<open>(<)\<close> of the key type; the comparison
  object that the map was constructed with, and that it returns from \<^verbatim>\<open>key_comp()\<close>, is
  never applied. A map constructed with the comparison "greater" and given the keys
  1, 2, 3 by three insertions stores them as 1, 2, 3: under the key comparison of that
  map the stored key sequence is not non-decreasing, since 2 comes before 1 under it
  and is stored after it.
\<close>

theorem key_comparison_not_applied:
  "run_operations (vector_map_empty (\<lambda>a b. b < a))
     [Insert (1::int, 10::int), Insert (2, 20), Insert (3, 30)]
   = Inr \<lparr>comp_vm = (\<lambda>a b. b < a), mem_vm = [(1, 10), (2, 20), (3, 30)]\<rparr> \<and>
   \<not> nondecreasing_under
       (comp_vm \<lparr>comp_vm = (\<lambda>a b. b < a), mem_vm = [(1::int, 10::int), (2, 20), (3, 30)]\<rparr>)
       (map fst (mem_vm \<lparr>comp_vm = (\<lambda>a b. b < a), mem_vm = [(1::int, 10::int), (2, 20), (3, 30)]\<rparr>))"
  by (simp add: vector_map_empty_def drop_result_def insert_vm_def lower_bound_def
      lower_bound_static_def lower_bound_loop.simps vector_insert_def deref_def Let_def
      nondecreasing_under_def)

section \<open>Placement of inserted nodes\<close>

lemma insert_loop_snoc:
  "insert_loop m it (vals @ [val]) =
     (case insert_loop m it vals of Inl e \<Rightarrow> Inl e | Inr r \<Rightarrow> insert_vm (snd r) val)"
  by (induction vals arbitrary: m it) (auto split: sum.splits)

lemma insert_vm_placement:
  fixes m :: "('k::linorder, 'v) vector_map"
  shows "\<exists>pos. lower_bound m (fst val) = Inr pos \<and> pos \<le> length (mem_vm m) \<and>
           insert_vm m val =
             Inr (pos, m\<lparr>mem_vm := take pos (mem_vm m) @ [val] @ drop pos (mem_vm m)\<rparr>) \<and>
           (sorted (map fst (mem_vm m)) \<longrightarrow>
              (\<forall>nd \<in> set (take pos (mem_vm m)). fst nd < fst val) \<and>
              (\<forall>nd \<in> set (drop pos (mem_vm m)). fst val \<le> fst nd))"
proof -
  obtain pos where pos: "lower_bound m (fst val) = Inr pos" "pos \<le> length (mem_vm m)"
    "insert_vm m val =
       Inr (pos, m\<lparr>mem_vm := take pos (mem_vm m) @ [val] @ drop pos (mem_vm m)\<rparr>)"
    using insert_vm_at_lower_bound[of m val] by auto
  have "(\<forall>nd \<in> set (take pos (mem_vm m)). fst nd < fst val) \<and>
        (\<forall>nd \<in> set (drop pos (mem_vm m)). fst val \<le> fst nd)"
    if s: "sorted (map fst (mem_vm m))"
  proof -
    obtain lb where lb: "lower_bound m (fst val) = Inr lb" "lb \<le> length (mem_vm m)"
      "\<forall>i<length (mem_vm m). i < lb \<longleftrightarrow> fst (mem_vm m ! i) < fst val"
      using sorted_map_bounds[OF s, of "fst val"] by auto
    have "lb = pos" using lb(1) pos(1) by simp
    then show ?thesis using lower_bound_splits_keys[OF lb(3,2)] by simp
  qed
  then show ?thesis using pos by blast
qed

lemma insert_loop_total:
  fixes m :: "('k::linorder, 'v) vector_map"
  shows "\<exists>it' m'. insert_loop m it vals = Inr (it', m') \<and>
           (sorted (map fst (mem_vm m)) \<longrightarrow> sorted (map fst (mem_vm m')))"
proof (induction vals arbitrary: m it)
  case Nil
  then show ?case by simp
next
  case (Cons val vals)
  obtain pos m1 where m1: "insert_vm m val = Inr (pos, m1)"
    using insert_vm_at_lower_bound[of m val] by blast
  have s1: "sorted (map fst (mem_vm m1))" if "sorted (map fst (mem_vm m))"
    using insert_vm_sorted[OF that, of val] m1 by simp
  obtain it' m' where r: "insert_loop m1 pos vals = Inr (it', m')"
    "sorted (map fst (mem_vm m1)) \<longrightarrow> sorted (map fst (mem_vm m'))"
    using Cons.IH[of m1 pos] by blast
  show ?case using m1 r s1 by auto
qed

text \<open>
  Claim C9. \<open>insert\<close> of the pair \<open>(k, v)\<close> puts the new node at the position that
  \<open>lower_bound k\<close> returns and leaves the nodes before and after that position as they
  were, in their order. On a sorted map every node before the new one has a key smaller
  than \<open>k\<close> and every node after it a key not smaller than \<open>k\<close>, so the new node
  stands immediately before the existing nodes of key \<open>k\<close>.

  Insertion of a range always returns. For the empty range it returns \<open>end\<close> and the map
  as it was. For a range \<open>vals\<close> followed by one more element \<open>val\<close> it returns the
  position of \<open>val\<close> and the map that insertion of \<open>vals\<close> leaves, with \<open>val\<close> put at the
  position that \<open>lower_bound\<close> returns for its key in that map; when the map was sorted
  at the start, the map that \<open>vals\<close> leaves is sorted, every node before \<open>val\<close> has a
  smaller key and every node after it a key not smaller. Insertion of an initializer
  list is insertion of its range.
\<close>

theorem insert_places_at_lower_bound:
  fixes m :: "('k::linorder, 'v) vector_map"
  shows "(\<exists>pos. lower_bound m k = Inr pos \<and> pos \<le> length (mem_vm m) \<and>
            insert_vm m (k, v) =
              Inr (pos, m\<lparr>mem_vm := take pos (mem_vm m) @ [(k, v)] @ drop pos (mem_vm m)\<rparr>) \<and>
            (sorted (map fst (mem_vm m)) \<longrightarrow>
               (\<forall>nd \<in> set (take pos (mem_vm m)). fst nd < k) \<and>
               (\<forall>nd \<in> set (drop pos (mem_vm m)). k \<le> fst nd))) \<and>
         insert_range m [] = Inr (length (mem_vm m), m) \<and>
         (\<exists>it1 m1 pos.
            insert_range m vals = Inr (it1, m1) \<and>
            lower_bound m1 (fst val) = Inr pos \<and> pos \<le> length (mem_vm m1) \<and>
            insert_range m (vals @ [val]) =
              Inr (pos, m1\<lparr>mem_vm := take pos (mem_vm m1) @ [val] @ drop pos (mem_vm m1)\<rparr>) \<and>
            (sorted (map fst (mem_vm m)) \<longrightarrow>
               sorted (map fst (mem_vm m1)) \<and>
               (\<forall>nd \<in> set (take pos (mem_vm m1)). fst nd < fst val) \<and>
               (\<forall>nd \<in> set (drop pos (mem_vm m1)). fst val \<le> fst nd))) \<and>
         insert_range m (vals @ [val]) =
           (case insert_range m vals of Inl e \<Rightarrow> Inl e | Inr r \<Rightarrow> insert_vm (snd r) val) \<and>
         insert_il m vals = insert_range m vals"
proof -
  have first: "\<exists>pos. lower_bound m k = Inr pos \<and> pos \<le> length (mem_vm m) \<and>
            insert_vm m (k, v) =
              Inr (pos, m\<lparr>mem_vm := take pos (mem_vm m) @ [(k, v)] @ drop pos (mem_vm m)\<rparr>) \<and>
            (sorted (map fst (mem_vm m)) \<longrightarrow>
               (\<forall>nd \<in> set (take pos (mem_vm m)). fst nd < k) \<and>
               (\<forall>nd \<in> set (drop pos (mem_vm m)). k \<le> fst nd))"
    using insert_vm_placement[of m "(k, v)"] by simp
  have base: "insert_range m [] = Inr (length (mem_vm m), m)"
    by (simp add: insert_range_def)
  have snoc: "insert_range m (vals @ [val]) =
           (case insert_range m vals of Inl e \<Rightarrow> Inl e | Inr r \<Rightarrow> insert_vm (snd r) val)"
    by (simp add: insert_range_def insert_loop_snoc)
  obtain it1 m1 where m1: "insert_range m vals = Inr (it1, m1)"
    "sorted (map fst (mem_vm m)) \<longrightarrow> sorted (map fst (mem_vm m1))"
    using insert_loop_total[of m "length (mem_vm m)" vals] by (auto simp: insert_range_def)
  obtain pos where pos: "lower_bound m1 (fst val) = Inr pos" "pos \<le> length (mem_vm m1)"
    "insert_vm m1 val =
       Inr (pos, m1\<lparr>mem_vm := take pos (mem_vm m1) @ [val] @ drop pos (mem_vm m1)\<rparr>)"
    "sorted (map fst (mem_vm m1)) \<longrightarrow>
       (\<forall>nd \<in> set (take pos (mem_vm m1)). fst nd < fst val) \<and>
       (\<forall>nd \<in> set (drop pos (mem_vm m1)). fst val \<le> fst nd)"
    using insert_vm_placement[of m1 val] by blast
  have last_placed: "insert_range m (vals @ [val]) =
       Inr (pos, m1\<lparr>mem_vm := take pos (mem_vm m1) @ [val] @ drop pos (mem_vm m1)\<rparr>)"
    using snoc m1(1) pos(3) by simp
  have range: "\<exists>it1 m1 pos.
            insert_range m vals = Inr (it1, m1) \<and>
            lower_bound m1 (fst val) = Inr pos \<and> pos \<le> length (mem_vm m1) \<and>
            insert_range m (vals @ [val]) =
              Inr (pos, m1\<lparr>mem_vm := take pos (mem_vm m1) @ [val] @ drop pos (mem_vm m1)\<rparr>) \<and>
            (sorted (map fst (mem_vm m)) \<longrightarrow>
               sorted (map fst (mem_vm m1)) \<and>
               (\<forall>nd \<in> set (take pos (mem_vm m1)). fst nd < fst val) \<and>
               (\<forall>nd \<in> set (drop pos (mem_vm m1)). fst val \<le> fst nd))"
    using m1 pos(1,2,4) last_placed by blast
  show ?thesis using first base range snoc by (simp add: insert_il_def)
qed

theorem insert_places_at_lower_bound_witness:
  "sorted (map fst [(1::int, 10::int), (2, 20), (2, 21), (3, 30)]) \<and>
   insert_vm \<lparr>comp_vm = (<), mem_vm = [(1::int, 10::int), (2, 20), (2, 21), (3, 30)]\<rparr> (2, 22)
     = Inr (1, \<lparr>comp_vm = (<), mem_vm = [(1, 10), (2, 22), (2, 20), (2, 21), (3, 30)]\<rparr>) \<and>
   sorted (map fst [(1::int, 10::int), (2, 20)]) \<and>
   insert_range \<lparr>comp_vm = (<), mem_vm = [(1::int, 10::int), (2, 20)]\<rparr> [(2, 21), (3, 30)]
     = Inr (3, \<lparr>comp_vm = (<), mem_vm = [(1, 10), (2, 21), (2, 20), (3, 30)]\<rparr>) \<and>
   insert_range \<lparr>comp_vm = (<), mem_vm = [(1::int, 10::int), (2, 20)]\<rparr> [(2, 21), (3, 30), (2, 22)]
     = Inr (1, \<lparr>comp_vm = (<), mem_vm = [(1, 10), (2, 22), (2, 21), (2, 20), (3, 30)]\<rparr>)"
proof -
  let ?m = "\<lparr>comp_vm = (<), mem_vm = [(1::int, 10::int), (2, 20), (2, 21), (3, 30)]\<rparr>"
  let ?n = "\<lparr>comp_vm = (<), mem_vm = [(1::int, 10::int), (2, 20)]\<rparr>"
  let ?n1 = "\<lparr>comp_vm = (<), mem_vm = [(1::int, 10::int), (2, 21), (2, 20), (3, 30)]\<rparr>"
  have lb: "lower_bound ?m 2 = Inr 1"
    by (simp add: lower_bound_def lower_bound_static_def lower_bound_loop.simps deref_def Let_def)
  have single: "insert_vm ?m (2, 22)
     = Inr (1, \<lparr>comp_vm = (<), mem_vm = [(1, 10), (2, 22), (2, 20), (2, 21), (3, 30)]\<rparr>)"
    using insert_places_at_lower_bound[of ?m 2 22 "[]" "(2, 22)"] unfolding lb by auto
  have r: "insert_range ?n [(2, 21), (3, 30)] = Inr (3, ?n1)"
    by (simp add: insert_range_def insert_vm_def vector_insert_def lower_bound_def
        lower_bound_static_def lower_bound_loop.simps deref_def Let_def)
  have lb1: "lower_bound ?n1 2 = Inr 1"
    by (simp add: lower_bound_def lower_bound_static_def lower_bound_loop.simps deref_def Let_def)
  from insert_places_at_lower_bound[of ?n 2 22 "[(2, 21), (3, 30)]" "(2, 22)"]
  obtain it1 m1 pos where p: "insert_range ?n [(2, 21), (3, 30)] = Inr (it1, m1)"
    "lower_bound m1 (fst (2::int, 22::int)) = Inr pos"
    "insert_range ?n ([(2, 21), (3, 30)] @ [(2, 22)]) =
       Inr (pos, m1\<lparr>mem_vm := take pos (mem_vm m1) @ [(2, 22)] @ drop pos (mem_vm m1)\<rparr>)"
    by blast
  have "m1 = ?n1" using p(1) r by simp
  moreover from this have "pos = 1" using p(2) lb1 by simp
  ultimately have "insert_range ?n [(2, 21), (3, 30), (2, 22)]
     = Inr (1, \<lparr>comp_vm = (<), mem_vm = [(1, 10), (2, 22), (2, 21), (2, 20), (3, 30)]\<rparr>)"
    using p(3) by simp
  then show ?thesis using single r by simp
qed


section \<open>Piecewise constant and piecewise linear interpolation\<close>

lemma std_lower_bound_less_sorted:
  fixes nodes :: "('k::linorder \<times> 'v) list"
  assumes "sorted (map fst nodes)"
  shows "\<exists>lb. std_lower_bound nodes 0 (length nodes) x (\<lambda>a x. fst a < x) = Inr lb \<and>
              lb \<le> length nodes \<and> (\<forall>i<length nodes. i < lb \<longleftrightarrow> fst (nodes ! i) < x)"
  using lower_bound_static_sorted[OF assms, of x]
  by (simp add: std_lower_bound_def lower_bound_static_def lower_bound_loop_std)

lemma std_lower_bound_le_sorted:
  fixes nodes :: "('k::linorder \<times> 'v) list"
  assumes "sorted (map fst nodes)"
  shows "\<exists>p. std_lower_bound nodes 0 (length nodes) x (\<lambda>a x. fst a \<le> x) = Inr p \<and>
             p \<le> length nodes \<and> (\<forall>i<length nodes. i < p \<longleftrightarrow> fst (nodes ! i) \<le> x)"
proof -
  have c: "(\<lambda>(a :: 'k \<times> 'v) x. fst a \<le> x) = (\<lambda>nd k. \<not> k < fst nd)"
    by (auto simp: fun_eq_iff)
  show ?thesis
    using upper_bound_loop_sorted[OF assms, of 0 x]
    by (simp only: c std_lower_bound_def upper_bound_loop_std) auto
qed

text \<open>
  Claim C6. On at least two nodes sorted ascending by key, \<open>piecewise_constant\<close> returns
  the value of the first node when the query key is smaller than every stored key, and
  otherwise the value of the last position whose key is at most the query key, which
  holds the greatest stored key that is at most the query key. With the nodes
  \<open>(1,1)\<close> and \<open>(10,10)\<close> it returns 1 at 9.9, 10 at 10 and 10 at 1123.54.
\<close>

theorem piecewise_constant_step:
  fixes nodes :: "('k::linorder \<times> 'v::zero) list"
  assumes "2 \<le> length nodes" "sorted (map fst nodes)"
  shows "(x < fst (nodes ! 0) \<longrightarrow> piecewise_constant nodes x = Inr (snd (nodes ! 0))) \<and>
         (fst (nodes ! 0) \<le> x \<longrightarrow>
            (\<exists>i<length nodes. fst (nodes ! i) \<le> x \<and>
               (\<forall>j<length nodes. fst (nodes ! j) \<le> x \<longrightarrow> j \<le> i) \<and>
               piecewise_constant nodes x = Inr (snd (nodes ! i)))) \<and>
         piecewise_constant [(1::real, 1::real), (10, 10)] 9.9 = Inr 1 \<and>
         piecewise_constant [(1::real, 1::real), (10, 10)] 10 = Inr 10 \<and>
         piecewise_constant [(1::real, 1::real), (10, 10)] 1123.54 = Inr 10"
proof -
  obtain p where p: "std_lower_bound nodes 0 (length nodes) x (\<lambda>a x. fst a \<le> x) = Inr p"
    "p \<le> length nodes" "\<forall>i<length nodes. i < p \<longleftrightarrow> fst (nodes ! i) \<le> x"
    using std_lower_bound_le_sorted[OF assms(2), of x] by blast
  have val: "piecewise_constant nodes x =
             (if p \<noteq> 0 then second_at nodes (p - 1) else second_at nodes p)"
    using assms(1) p(1) by (auto simp: piecewise_constant_def Let_def)
  have before: "piecewise_constant nodes x = Inr (snd (nodes ! 0))" if "x < fst (nodes ! 0)"
  proof -
    have "\<not> 0 < p" using p(3) that assms(1) by (metis not_le less_le_trans zero_less_numeral)
    then show ?thesis using val assms(1) by (auto simp: second_at_def deref_def)
  qed
  have inside: "\<exists>i<length nodes. fst (nodes ! i) \<le> x \<and>
               (\<forall>j<length nodes. fst (nodes ! j) \<le> x \<longrightarrow> j \<le> i) \<and>
               piecewise_constant nodes x = Inr (snd (nodes ! i))" if "fst (nodes ! 0) \<le> x"
  proof -
    have pos: "0 < p" using p(3) that assms(1) by (metis less_le_trans zero_less_numeral)
    then have i: "p - 1 < length nodes" "p - 1 < p" using p(2) by auto
    have "fst (nodes ! (p - 1)) \<le> x" using p(3) i by blast
    moreover have "\<forall>j<length nodes. fst (nodes ! j) \<le> x \<longrightarrow> j \<le> p - 1"
      using p(3) by auto
    moreover have "piecewise_constant nodes x = Inr (snd (nodes ! (p - 1)))"
      using val pos i(1) by (simp add: second_at_def deref_def)
    ultimately show ?thesis using i(1) by blast
  qed
  have ex: "piecewise_constant [(1::real, 1::real), (10, 10)] 9.9 = Inr 1"
    "piecewise_constant [(1::real, 1::real), (10, 10)] 10 = Inr 10"
    "piecewise_constant [(1::real, 1::real), (10, 10)] 1123.54 = Inr 10"
    by (simp_all add: piecewise_constant_def std_lower_bound_def std_lower_bound_loop.simps
        second_at_def deref_def Let_def)
  show ?thesis using before inside ex by blast
qed

theorem piecewise_constant_step_witness:
  "2 \<le> length [(1::real, 1::real), (10, 10)] \<and> sorted (map fst [(1::real, 1::real), (10, 10)]) \<and>
   (1::real) \<le> 5 \<and>
   (\<exists>i<length [(1::real, 1::real), (10, 10)]. fst ([(1::real, 1::real), (10, 10)] ! i) \<le> 5 \<and>
      piecewise_constant [(1::real, 1::real), (10, 10)] 5 = Inr (snd ([(1::real, 1::real), (10, 10)] ! i)))"
proof -
  have h: "2 \<le> length [(1::real, 1::real), (10, 10)]" "sorted (map fst [(1::real, 1::real), (10, 10)])"
    by simp_all
  have k: "fst ([(1::real, 1::real), (10, 10)] ! 0) \<le> 5" by simp
  from piecewise_constant_step[OF h, of 5] k
  have "\<exists>i<length [(1::real, 1::real), (10, 10)]. fst ([(1::real, 1::real), (10, 10)] ! i) \<le> 5 \<and>
      (\<forall>j<length [(1::real, 1::real), (10, 10)]. fst ([(1::real, 1::real), (10, 10)] ! j) \<le> 5 \<longrightarrow> j \<le> i) \<and>
      piecewise_constant [(1::real, 1::real), (10, 10)] 5 = Inr (snd ([(1::real, 1::real), (10, 10)] ! i))"
    by blast
  then show ?thesis using h by auto
qed



lemma piecewise_linear_unfold:
  assumes "2 \<le> length nodes"
    "std_lower_bound nodes 0 (length nodes) x (\<lambda>a x. fst a < x) = Inr lb"
    "p1 = (if lb = 0 then 1 else if lb = length nodes then length nodes - 1 else lb)"
    "1 \<le> p1" "p1 < length nodes"
  shows "piecewise_linear nodes x =
           Inr (snd (nodes ! (p1 - 1)) +
                (snd (nodes ! p1) - snd (nodes ! (p1 - 1))) /
                (fst (nodes ! p1) - fst (nodes ! (p1 - 1))) * (x - fst (nodes ! (p1 - 1))))"
proof -
  consider "lb = 0" | "lb \<noteq> 0" "lb = length nodes" | "lb \<noteq> 0" "lb \<noteq> length nodes"
    by blast
  then show ?thesis
  proof cases
    case 1
    then show ?thesis using assms
      by (auto simp: piecewise_linear_def Let_def deref_def)
  next
    case 2
    then show ?thesis using assms
      by (auto simp: piecewise_linear_def Let_def deref_def)
  next
    case 3
    then show ?thesis using assms
      by (auto simp: piecewise_linear_def Let_def deref_def)
  qed
qed

text \<open>
  Claim C5. On at least two nodes with strictly ascending keys, \<open>piecewise_linear\<close>
  searches the lower bound \<open>lb\<close> of the query key \<open>x\<close> under the strict comparison
  \<open>key < x\<close>, takes as upper bracket \<open>p1\<close> the position \<open>lb\<close> moved into the positions
  from the second node to the last node, so that \<open>p0 = p1 - 1\<close> is a node, and returns
  \<open>v0 + ((v1 - v0) / (k1 - k0)) * (x - k0)\<close> for the nodes \<open>(k0, v0)\<close> at \<open>p0\<close> and
  \<open>(k1, v1)\<close> at \<open>p1\<close>. For \<open>x\<close> inside the key domain the bracket encloses \<open>x\<close>; for
  \<open>x\<close> at or before the first key it is the first pair of nodes, for \<open>x\<close> after the
  last key the last pair. With the nodes \<open>(1,1)\<close> and \<open>(10,10)\<close> the result at 20.12 is
  20.12 and the result at -1.4 is -1.4. The arithmetic is exact (an ordered field).
\<close>

theorem piecewise_linear_bracket:
  fixes nodes :: "('a::linordered_field \<times> 'a) list"
  assumes "2 \<le> length nodes" "sorted_wrt (<) (map fst nodes)"
  shows "(\<exists>lb p1.
            std_lower_bound nodes 0 (length nodes) x (\<lambda>a x. fst a < x) = Inr lb \<and>
            (\<forall>i<length nodes. i < lb \<longleftrightarrow> fst (nodes ! i) < x) \<and>
            p1 = (if lb = 0 then 1 else if lb = length nodes then length nodes - 1 else lb) \<and>
            1 \<le> p1 \<and> p1 < length nodes \<and>
            piecewise_linear nodes x =
              Inr (snd (nodes ! (p1 - 1)) +
                   (snd (nodes ! p1) - snd (nodes ! (p1 - 1))) /
                   (fst (nodes ! p1) - fst (nodes ! (p1 - 1))) * (x - fst (nodes ! (p1 - 1)))) \<and>
            (fst (nodes ! 0) < x \<and> x \<le> fst (nodes ! (length nodes - 1)) \<longrightarrow>
               fst (nodes ! (p1 - 1)) < x \<and> x \<le> fst (nodes ! p1)) \<and>
            (x \<le> fst (nodes ! 0) \<longrightarrow> p1 = 1) \<and>
            (fst (nodes ! (length nodes - 1)) < x \<longrightarrow> p1 = length nodes - 1)) \<and>
         piecewise_linear [(1::real, 1::real), (10, 10)] 20.12 = Inr 20.12 \<and>
         piecewise_linear [(1::real, 1::real), (10, 10)] (-1.4) = Inr (-1.4)"
proof -
  let ?n = "length nodes"
  have s: "sorted (map fst nodes)"
    using assms(2) by (rule sorted_wrt_mono_rel[rotated]) simp
  obtain lb where lb: "std_lower_bound nodes 0 ?n x (\<lambda>a x. fst a < x) = Inr lb"
    "lb \<le> ?n" "\<forall>i<?n. i < lb \<longleftrightarrow> fst (nodes ! i) < x"
    using std_lower_bound_less_sorted[OF s, of x] by blast
  define p1 where "p1 = (if lb = 0 then 1 else if lb = ?n then ?n - 1 else lb)"
  have r: "1 \<le> p1" "p1 < ?n" using assms(1) lb(2) by (auto simp: p1_def)
  have val: "piecewise_linear nodes x =
              Inr (snd (nodes ! (p1 - 1)) +
                   (snd (nodes ! p1) - snd (nodes ! (p1 - 1))) /
                   (fst (nodes ! p1) - fst (nodes ! (p1 - 1))) * (x - fst (nodes ! (p1 - 1))))"
    by (rule piecewise_linear_unfold[OF assms(1) lb(1) p1_def r])
  have left: "p1 = 1" if "x \<le> fst (nodes ! 0)"
  proof -
    have "\<not> 0 < lb" using lb(3) that assms(1) by (metis not_le less_le_trans zero_less_numeral)
    then show ?thesis by (simp add: p1_def)
  qed
  have right: "p1 = ?n - 1" if "fst (nodes ! (?n - 1)) < x"
  proof -
    have "?n - 1 < lb" using lb(3) that assms(1) by (metis diff_less less_le_trans zero_less_numeral zero_less_one)
    then have "lb = ?n" using lb(2) by simp
    then show ?thesis using assms(1) by (auto simp: p1_def)
  qed
  have mid: "fst (nodes ! (p1 - 1)) < x \<and> x \<le> fst (nodes ! p1)"
    if "fst (nodes ! 0) < x" "x \<le> fst (nodes ! (?n - 1))"
  proof -
    have a: "0 < lb" using lb(3) that(1) assms(1) by (metis less_le_trans zero_less_numeral)
    have "\<not> ?n - 1 < lb" using lb(3) that(2) assms(1)
      by (metis diff_less less_le_trans zero_less_numeral zero_less_one not_le)
    then have b: "lb < ?n" using assms(1) by linarith
    have p: "p1 = lb" using a b by (simp add: p1_def)
    have "fst (nodes ! (lb - 1)) < x" using lb(3) a b by (metis diff_less less_trans zero_less_one)
    moreover have "x \<le> fst (nodes ! lb)" using lb(3) b by (metis less_irrefl not_le)
    ultimately show ?thesis using p by simp
  qed
  have ex: "piecewise_linear [(1::real, 1::real), (10, 10)] 20.12 = Inr 20.12"
    "piecewise_linear [(1::real, 1::real), (10, 10)] (-1.4) = Inr (-1.4)"
    by (simp_all add: piecewise_linear_def std_lower_bound_def std_lower_bound_loop.simps
        deref_def Let_def)
  show ?thesis
    using lb(1,3) p1_def r val left right mid ex by blast
qed



theorem piecewise_linear_bracket_witness:
  "2 \<le> length [(1::real, 1::real), (10, 10)] \<and>
   sorted_wrt (<) (map fst [(1::real, 1::real), (10, 10)]) \<and>
   piecewise_linear [(1::real, 1::real), (10, 10)] 5 = Inr 5"
proof -
  let ?N = "[(1::real, 1::real), (10, 10)]"
  have h: "2 \<le> length ?N" "sorted_wrt (<) (map fst ?N)" by simp_all
  from piecewise_linear_bracket[OF h, of 5]
  obtain p1 where p: "1 \<le> p1" "p1 < length ?N"
    "piecewise_linear ?N 5 =
       Inr (snd (?N ! (p1 - 1)) +
            (snd (?N ! p1) - snd (?N ! (p1 - 1))) /
            (fst (?N ! p1) - fst (?N ! (p1 - 1))) * (5 - fst (?N ! (p1 - 1))))"
    by blast
  have "p1 = 1" using p(1,2) by simp
  then have "piecewise_linear ?N 5 = Inr 5" using p(3) by simp
  then show ?thesis using h by blast
qed

section \<open>Gradient\<close>

lemma sorted_values_ends:
  fixes ys :: "'v::linorder list"
  assumes "ys \<noteq> []" "sorted ys"
  shows "Min (set ys) = hd ys" "Max (set ys) = last ys"
proof -
  have lo: "hd ys \<le> y" if "y \<in> set ys" for y
    using assms that by (cases ys) auto
  have hi: "y \<le> last ys" if yin: "y \<in> set ys" for y
  proof -
    obtain i where i: "i < length ys" "ys ! i = y" using yin by (auto simp: in_set_conv_nth)
    have "ys ! i \<le> ys ! (length ys - 1)"
      using sorted_nth_mono[OF assms(2), of i "length ys - 1"] i(1) by simp
    then show ?thesis using i(2) assms(1) by (simp add: last_conv_nth)
  qed
  show "Min (set ys) = hd ys" using assms(1) lo by (intro Min_eqI) auto
  show "Max (set ys) = last ys" using assms(1) hi by (intro Max_eqI) auto
qed

text \<open>
  The gradient built from the nodes \<open>(0,5)\<close> and \<open>(1,2)\<close>: \<open>min\<close> returns 5 and \<open>max\<close>
  returns 2, while the least stored value is 2 and the greatest is 5.
\<close>

theorem gradient_min_max_counterexample:
  "vector_map_of [(0::real, 5::real), (1, 2)] (<) = Inr \<lparr>comp_vm = (<), mem_vm = [(0, 5), (1, 2)]\<rparr> \<and>
   min_ig \<lparr>map_ig = \<lparr>ipl_im = piecewise_linear,
                      nodes_im = \<lparr>comp_vm = (<), mem_vm = [(0::real, 5::real), (1, 2)]\<rparr>\<rparr>\<rparr> = Inr 5 \<and>
   Min (snd ` set [(0::real, 5::real), (1, 2)]) = 2 \<and>
   max_ig \<lparr>map_ig = \<lparr>ipl_im = piecewise_linear,
                      nodes_im = \<lparr>comp_vm = (<), mem_vm = [(0::real, 5::real), (1, 2)]\<rparr>\<rparr>\<rparr> = Inr 2 \<and>
   Max (snd ` set [(0::real, 5::real), (1, 2)]) = 5"
  by (simp add: min_ig_def max_ig_def second_at_def deref_def vector_map_of_def insert_il_def
      insert_range_def insert_vm_def vector_map_empty_def lower_bound_def lower_bound_static_def
      lower_bound_loop.simps vector_insert_def Let_def)

text \<open>
  Claim C10, as amended. On a non-empty gradient \<open>min\<close> returns the value of the first
  stored node (the node of the smallest key) and \<open>max\<close> the value of the last stored
  node (the node of the greatest key). These are the minimum and the maximum of the
  stored values when the stored values are non-decreasing along the key order.
\<close>

theorem gradient_min_max_ends:
  fixes g :: "('k, 'v::linorder) interpolating_gradient"
  assumes "mem_vm (nodes_im (map_ig g)) \<noteq> []"
  shows "min_ig g = Inr (snd (hd (mem_vm (nodes_im (map_ig g))))) \<and>
         max_ig g = Inr (snd (last (mem_vm (nodes_im (map_ig g))))) \<and>
         (sorted (map snd (mem_vm (nodes_im (map_ig g)))) \<longrightarrow>
            min_ig g = Inr (Min (snd ` set (mem_vm (nodes_im (map_ig g))))) \<and>
            max_ig g = Inr (Max (snd ` set (mem_vm (nodes_im (map_ig g))))))"
proof -
  let ?xs = "mem_vm (nodes_im (map_ig g))"
  have mn: "min_ig g = Inr (snd (hd ?xs))"
    using assms by (simp add: min_ig_def second_at_def deref_def hd_conv_nth)
  have mx: "max_ig g = Inr (snd (last ?xs))"
    using assms by (simp add: max_ig_def second_at_def deref_def last_conv_nth Let_def)
  have "min_ig g = Inr (Min (snd ` set ?xs)) \<and> max_ig g = Inr (Max (snd ` set ?xs))"
    if s: "sorted (map snd ?xs)"
  proof -
    have ne: "map snd ?xs \<noteq> []" using assms by simp
    have "Min (set (map snd ?xs)) = hd (map snd ?xs)" "Max (set (map snd ?xs)) = last (map snd ?xs)"
      using sorted_values_ends[OF ne s] by simp_all
    then show ?thesis using mn mx assms by (simp add: hd_map last_map)
  qed
  then show ?thesis using mn mx by blast
qed

theorem gradient_min_max_ends_witness:
  "mem_vm (nodes_im (map_ig \<lparr>map_ig = \<lparr>ipl_im = piecewise_linear,
      nodes_im = \<lparr>comp_vm = (<), mem_vm = [(0::real, 2::real), (1, 5)]\<rparr>\<rparr>\<rparr>)) \<noteq> [] \<and>
   sorted (map snd [(0::real, 2::real), (1, 5)]) \<and>
   min_ig \<lparr>map_ig = \<lparr>ipl_im = piecewise_linear,
      nodes_im = \<lparr>comp_vm = (<), mem_vm = [(0::real, 2::real), (1, 5)]\<rparr>\<rparr>\<rparr> = Inr 2 \<and>
   max_ig \<lparr>map_ig = \<lparr>ipl_im = piecewise_linear,
      nodes_im = \<lparr>comp_vm = (<), mem_vm = [(0::real, 2::real), (1, 5)]\<rparr>\<rparr>\<rparr> = Inr 5"
  using gradient_min_max_ends[of "\<lparr>map_ig = \<lparr>ipl_im = piecewise_linear,
      nodes_im = \<lparr>comp_vm = (<), mem_vm = [(0::real, 2::real), (1, 5)]\<rparr>\<rparr>\<rparr>"]
  by simp


end
